theory Spec2Isabelle
  imports Complex_Main
begin

section \<open>Double-precision arithmetic\<close>

text \<open>
  A JavaScript number is an IEEE 754 binary64 value; a finite one is a real number.
  \<open>round64 x\<close> is the binary64 value nearest to the real \<open>x\<close>, a tie going to the even
  significand: 53 significant bits in the binade of \<open>x\<close>, and the spacing of the
  subnormal numbers, \<open>2 powr - 1074\<close>, below \<open>2 powr - 1022\<close>. The operations \<open>-\<close>, \<open>+\<close>, \<open>*\<close> and \<open>Math.sqrt\<close>
  return the exact result rounded. Overflow is not represented: where JavaScript gives
  \<open>Infinity\<close>, \<open>round64\<close> gives a real above the largest binary64 value.
\<close>

definition rne :: "real \<Rightarrow> int" where
  "rne x =
     (let n = \<lfloor>x\<rfloor>; r = x - of_int n
      in if r < 1 / 2 then n else if r > 1 / 2 then n + 1 else if even n then n else n + 1)"

definition expo :: "real \<Rightarrow> int" where
  "expo x = (if \<bar>x\<bar> < 2 powr (- 1022) then - 1022 else \<lfloor>log 2 \<bar>x\<bar>\<rfloor>)"

definition quantum :: "real \<Rightarrow> real" where
  "quantum x = 2 powr (of_int (expo x) - 52)"

definition round64 :: "real \<Rightarrow> real" where
  "round64 x = of_int (rne (x / quantum x)) * quantum x"

definition fsub :: "real \<Rightarrow> real \<Rightarrow> real" where
  "fsub x y = round64 (x - y)"

definition fadd :: "real \<Rightarrow> real \<Rightarrow> real" where
  "fadd x y = round64 (x + y)"

definition fmul :: "real \<Rightarrow> real \<Rightarrow> real" where
  "fmul x y = round64 (x * y)"

definition fsqrt :: "real \<Rightarrow> real" where
  "fsqrt x = round64 (sqrt x)"

section \<open>The nebula background of script.js (\<open>initNebulaBackground\<close>)\<close>

text \<open>
  \<open>window.innerWidth\<close> and \<open>window.innerHeight\<close> are naturals. \<open>Math.random()\<close> is an
  explicit random source: \<open>rnd k\<close> is the value returned by the \<open>k\<close>-th call, and the number
  of calls made so far is threaded through the state (field \<open>calls\<close>). The positions and
  velocities of the nodes are reals, and \<open>Node.reset\<close> and \<open>Node.update\<close> compute on them
  exactly; the distance test of \<open>animate\<close> is computed in double precision.

  The fields \<open>x\<close>, \<open>y\<close> and \<open>size\<close> of the class \<open>Node\<close> are named \<open>nx\<close>, \<open>ny\<close> and
  \<open>nsize\<close>.
\<close>

type_synonym random = "nat \<Rightarrow> real"

record node =
  nx :: real
  ny :: real
  nsize :: real
  speedX :: real
  speedY :: real
  opacity :: real

text \<open>\<open>Node.reset\<close>: six calls of \<open>Math.random()\<close>, in the order of the source.\<close>

definition Node_reset :: "random \<Rightarrow> nat \<Rightarrow> nat \<Rightarrow> nat \<Rightarrow> node \<times> nat" where
  "Node_reset rnd w h k =
     (\<lparr>nx = rnd k * real w,
       ny = rnd (k + 1) * real h,
       nsize = rnd (k + 2) * 2 + 1,
       speedX = (rnd (k + 3) - 0.5) * 0.8,
       speedY = (rnd (k + 4) - 0.5) * 0.8,
       opacity = rnd (k + 5) * 0.5 + 0.2\<rparr>, k + 6)"

text \<open>\<open>Node.update\<close>: advance, then reset when the new position fails the bounds test.\<close>

definition advance :: "node \<Rightarrow> node" where
  "advance p = p\<lparr>nx := nx p + speedX p, ny := ny p + speedY p\<rparr>"

definition off_surface :: "nat \<Rightarrow> nat \<Rightarrow> node \<Rightarrow> bool" where
  "off_surface w h p = (nx p < 0 \<or> nx p > real w \<or> ny p < 0 \<or> ny p > real h)"

definition Node_update :: "random \<Rightarrow> nat \<Rightarrow> nat \<Rightarrow> nat \<Rightarrow> node \<Rightarrow> node \<times> nat" where
  "Node_update rnd w h k p =
     (if off_surface w h (advance p) then Node_reset rnd w h k else (advance p, k))"

text \<open>
  The closure variables of \<open>initNebulaBackground\<close>: the stored dimensions, the array
  \<open>nodes\<close>, and the number of \<open>Math.random()\<close> calls made so far.
\<close>

record field =
  width :: nat
  height :: nat
  nodes :: "node list"
  calls :: nat

record window =
  innerWidth :: nat
  innerHeight :: nat

definition resize :: "window \<Rightarrow> field \<Rightarrow> field" where
  "resize win f = f\<lparr>width := innerWidth win, height := innerHeight win\<rparr>"

text \<open>
  What one call of \<open>animate\<close> does, in order (the clearing of the canvas and the
  constant stroke style are left out): \<open>Arc i x y size opacity\<close> is \<open>p1.draw()\<close> for
  \<open>nodes[i]\<close>; \<open>Check i j x1 y1 x2 y2 s\<close> is one iteration of the inner loop at indices
  \<open>i\<close>, \<open>j\<close>, which read the positions \<open>(x1, y1)\<close> of \<open>p1\<close> and \<open>(x2, y2)\<close> of \<open>p2\<close>; \<open>s\<close>
  tells whether the segment from \<open>(x1, y1)\<close> to \<open>(x2, y2)\<close> was stroked.
\<close>

datatype event =
    Arc nat real real real real
  | Check nat nat real real real real bool

text \<open>
  The distance of the inner loop, \<open>dx = p1.x - p2.x\<close>, \<open>dy = p1.y - p2.y\<close>,
  \<open>dist = Math.sqrt(dx*dx + dy*dy)\<close>, from the coordinates of \<open>p1\<close> and of \<open>p2\<close>.
\<close>

definition dist64 :: "real \<Rightarrow> real \<Rightarrow> real \<Rightarrow> real \<Rightarrow> real" where
  "dist64 x1 y1 x2 y2 =
     (let dx = fsub x1 x2;
          dy = fsub y1 y2
      in fsqrt (fadd (fmul dx dx) (fmul dy dy)))"

text \<open>The inner loop \<open>for (j = i + 1; j < nodes.length; j++)\<close>.\<close>

function pair_loop :: "node list \<Rightarrow> nat \<Rightarrow> node \<Rightarrow> nat \<Rightarrow> event list" where
  "pair_loop ns i p1 j =
     (if j < length ns then
        (let p2 = ns ! j;
             dist = dist64 (nx p1) (ny p1) (nx p2) (ny p2)
         in Check i j (nx p1) (ny p1) (nx p2) (ny p2) (dist < 150) # pair_loop ns i p1 (j + 1))
      else [])"
  by pat_completeness auto
termination
  by (relation "measure (\<lambda>(ns, i, p1, j). length ns - j)") auto

text \<open>The outer loop \<open>for (i = 0; i < nodes.length; i++)\<close> of \<open>animate\<close>.\<close>

function node_loop :: "random \<Rightarrow> field \<Rightarrow> nat \<Rightarrow> field \<times> event list" where
  "node_loop rnd f i =
     (if i < length (nodes f) then
        (let r = Node_update rnd (width f) (height f) (calls f) (nodes f ! i);
             p1 = fst r;
             f1 = f\<lparr>nodes := (nodes f)[i := p1], calls := snd r\<rparr>;
             rest = node_loop rnd f1 (i + 1)
         in (fst rest,
             Arc i (nx p1) (ny p1) (nsize p1) (opacity p1)
               # pair_loop (nodes f1) i p1 (i + 1) @ snd rest))
      else (f, []))"
  by pat_completeness auto
termination
  by (relation "measure (\<lambda>(rnd, f, i). length (nodes f) - i)") auto

definition animate :: "random \<Rightarrow> field \<Rightarrow> field \<times> event list" where
  "animate rnd f = node_loop rnd f 0"

text \<open>\<open>Array.from({ length: nodeCount }, () => new Node())\<close>.\<close>

fun new_nodes :: "random \<Rightarrow> nat \<Rightarrow> nat \<Rightarrow> nat \<Rightarrow> nat \<Rightarrow> node list \<times> nat" where
  "new_nodes rnd w h k 0 = ([], k)"
| "new_nodes rnd w h k (Suc n) =
     (let r = Node_reset rnd w h k;
          rest = new_nodes rnd w h (snd r) n
      in (fst r # fst rest, snd rest))"

definition nodeCount :: "window \<Rightarrow> nat" where
  "nodeCount win = (if innerWidth win < 800 then 30 else 60)"

text \<open>
  Lines 386 to 422 of \<open>initNebulaBackground\<close>, once the canvas has been found: the
  first \<open>resize()\<close>, then the construction of \<open>nodes\<close>. The variables \<open>width\<close> and \<open>height\<close>
  are declared unassigned and are not read before \<open>resize()\<close> assigns them; the model
  starts them at 0.
\<close>

definition unsized :: field where
  "unsized = \<lparr>width = 0, height = 0, nodes = [], calls = 0\<rparr>"

definition initial_field :: "window \<Rightarrow> random \<Rightarrow> field" where
  "initial_field win rnd =
     (let f0 = resize win unsized;
          r = new_nodes rnd (width f0) (height f0) (calls f0) (nodeCount win)
      in f0\<lparr>nodes := fst r, calls := snd r\<rparr>)"

text \<open>
  \<open>initNebulaBackground\<close>: nothing happens without the element \<open>bg-canvas\<close>; with it, the
  field is built and the first frame is drawn at once.
\<close>

definition initNebulaBackground :: "bool \<Rightarrow> window \<Rightarrow> random \<Rightarrow> (field \<times> event list) option" where
  "initNebulaBackground canvas win rnd =
     (if \<not> canvas then None else Some (animate rnd (initial_field win rnd)))"

text \<open>
  Each call of \<open>animate\<close> ends with \<open>requestAnimationFrame(animate)\<close>, so the host calls
  it again for the next frame: the fields after each of \<open>n\<close> successive calls.
\<close>

fun frames :: "random \<Rightarrow> nat \<Rightarrow> field \<Rightarrow> field list" where
  "frames rnd 0 f = []"
| "frames rnd (Suc n) f = (let f' = fst (animate rnd f) in f' # frames rnd n f')"

text \<open>The index pairs the inner loop visited, and those it stroked a segment for.\<close>

fun tested :: "event list \<Rightarrow> (nat \<times> nat) list" where
  "tested [] = []"
| "tested (Arc i a b c d # es) = tested es"
| "tested (Check i j a b c d s # es) = (i, j) # tested es"

fun stroked :: "event list \<Rightarrow> (nat \<times> nat) list" where
  "stroked [] = []"
| "stroked (Arc i a b c d # es) = stroked es"
| "stroked (Check i j a b c d s # es) = (if s then (i, j) # stroked es else stroked es)"

text \<open>Random sources and fields used as concrete inputs.\<close>

definition half_source :: random where
  "half_source k = 1 / 2"

definition edge_source :: random where
  "edge_source k = (if k = 0 then 4095 / 4096 else if k = 3 then 13 / 16 else 1 / 2)"

definition edge_node :: node where
  "edge_node = fst (Node_reset edge_source 1024 768 0)"

definition leaving :: field where
  "leaving = \<lparr>width = 800, height = 600,
      nodes = [\<lparr>nx = 10, ny = 599.9, nsize = 1, speedX = 0.25, speedY = 0.25, opacity = 0.5\<rparr>,
               \<lparr>nx = 100, ny = 100, nsize = 2, speedX = - 0.25, speedY = 0, opacity = 0.5\<rparr>],
      calls = 0\<rparr>"


definition boundary :: field where
  "boundary = \<lparr>width = 800, height = 600,
      nodes = [\<lparr>nx = 100, ny = 100, nsize = 1, speedX = 0, speedY = 0, opacity = 0.5\<rparr>,
               \<lparr>nx = 250, ny = 100, nsize = 1, speedX = 0, speedY = 0, opacity = 0.5\<rparr>,
               \<lparr>nx = 100, ny = 249.5, nsize = 1, speedX = 0, speedY = 0, opacity = 0.5\<rparr>],
      calls = 0\<rparr>"



definition narrow :: window where
  "narrow = \<lparr>innerWidth = 799, innerHeight = 600\<rparr>"

definition wide :: window where
  "wide = \<lparr>innerWidth = 800, innerHeight = 600\<rparr>"


definition later :: field where
  "later = \<lparr>width = 800, height = 600,
      nodes = [\<lparr>nx = 10, ny = 599.9, nsize = 1, speedX = 0.25, speedY = 0.25, opacity = 0.5\<rparr>,
               \<lparr>nx = 100, ny = 100, nsize = 2, speedX = - 0.25, speedY = 0, opacity = 0.5\<rparr>],
      calls = 6\<rparr>"

section \<open>The connection test of the globe (\<open>init3DGlobe\<close>, function \<open>draw\<close>)\<close>



definition squared_threshold :: "real \<Rightarrow> real" where
  "squared_threshold radius = fmul (fmul radius radius) (round64 (3 / 10))"











section \<open>The contact form (\<open>window.sendMessage\<close>)\<close>

text \<open>
  The part of the page \<open>sendMessage\<close> reads and writes: the button \<open>.send-btn\<close> with its
  text and two inline style properties, the form \<open>contact-form\<close>, the values of the
  controls \<open>email\<close> and \<open>message\<close> (\<open>None\<close> when the element is missing) and the default
  values \<open>form.reset()\<close> puts back, which come from the page's markup. Every effect is
  also appended to \<open>trace\<close>, in program order.
\<close>

record button =
  innerText :: string
  pointerEvents :: string
  color :: string

record request =
  url :: string
  http_method :: string
  content_type :: string
  accept :: string
  body :: "(string \<times> string) list"

datatype effect =
    SetText string
  | SetPointerEvents string
  | SetColor string
  | FormReset
  | Fetch request
  | ConsoleError
  | SetTimeout nat string

record page =
  form :: bool
  btn :: "button option"
  email :: "string option"
  message :: "string option"
  email_default :: string
  message_default :: string
  trace :: "effect list"

datatype error = TypeError

text \<open>How the \<open>fetch\<close> settles: with a response and its \<open>ok\<close> flag, or rejected.\<close>

datatype outcome = Response bool | Rejected

definition post :: "string \<Rightarrow> string \<Rightarrow> request" where
  "post e m =
     \<lparr>url = ''https://formsubmit.co/ajax/nithish1436m@gmail.com'',
      http_method = ''POST'',
      content_type = ''application/json'',
      accept = ''application/json'',
      body = [(''email'', e), (''message'', m),
              (''_subject'', ''New Transmission from NM. Portfolio!'')]\<rparr>"

definition write_btn :: "(button \<Rightarrow> button) \<Rightarrow> page \<Rightarrow> page" where
  "write_btn g p = p\<lparr>btn := map_option g (btn p)\<rparr>"

definition emit :: "effect list \<Rightarrow> page \<Rightarrow> page" where
  "emit es p = p\<lparr>trace := trace p @ es\<rparr>"

text \<open>
  \<open>sendMessage\<close> up to its \<open>await\<close>: the guards, then the sending state and the
  \<open>fetch\<close>. The result holds \<open>originalText\<close> when a request is under way.
\<close>

definition sendMessage_start :: "page \<Rightarrow> error + (page \<times> string option)" where
  "sendMessage_start p =
     (case btn p of
        None \<Rightarrow> Inr (p, None)
      | Some b \<Rightarrow>
          if \<not> form p then Inr (p, None)
          else (case email p of
             None \<Rightarrow> Inl TypeError
           | Some e \<Rightarrow>
               (case message p of
                  None \<Rightarrow> Inl TypeError
                | Some m \<Rightarrow>
                    if e = [] \<or> m = [] then Inr (p, None)
                    else
                      (let originalText = innerText b;
                           p1 = emit [SetText ''[ TRANSMITTING... ]'']
                                  (write_btn (\<lambda>b. b\<lparr>innerText := ''[ TRANSMITTING... ]''\<rparr>) p);
                           p2 = emit [SetPointerEvents ''none'']
                                  (write_btn (\<lambda>b. b\<lparr>pointerEvents := ''none''\<rparr>) p1);
                           p3 = emit [Fetch (post e m)] p2
                       in Inr (p3, Some originalText)))))"

text \<open>The branch \<open>if (response.ok)\<close>, the \<open>catch\<close> block and the \<open>finally\<close> block.\<close>

definition succeeded :: "page \<Rightarrow> page" where
  "succeeded p =
     (let p1 = emit [SetText ''[ TRANSMISSION SUCCESS ]'']
                 (write_btn (\<lambda>b. b\<lparr>innerText := ''[ TRANSMISSION SUCCESS ]''\<rparr>) p);
          p2 = emit [SetColor ''var(--highlight-color)'']
                 (write_btn (\<lambda>b. b\<lparr>color := ''var(--highlight-color)''\<rparr>) p1)
      in emit [FormReset]
           (p2\<lparr>email := map_option (\<lambda>v. email_default p2) (email p2),
               message := map_option (\<lambda>v. message_default p2) (message p2)\<rparr>))"

definition failed :: "page \<Rightarrow> page" where
  "failed p =
     (let p1 = emit [SetText ''[ FAILED. RETRY? ]'']
                 (write_btn (\<lambda>b. b\<lparr>innerText := ''[ FAILED. RETRY? ]''\<rparr>) p);
          p2 = emit [SetColor ''#ff3333'']
                 (write_btn (\<lambda>b. b\<lparr>color := ''#ff3333''\<rparr>) p1)
      in emit [ConsoleError] p2)"

definition sendMessage_settle :: "outcome \<Rightarrow> string \<Rightarrow> page \<Rightarrow> page" where
  "sendMessage_settle out originalText p =
     emit [SetTimeout 3000 originalText]
       (case out of
          Response ok \<Rightarrow> if ok then succeeded p else failed p
        | Rejected \<Rightarrow> failed p)"

text \<open>The callback given to \<open>setTimeout\<close>.\<close>

definition revert :: "string \<Rightarrow> page \<Rightarrow> page" where
  "revert originalText p =
     (let p1 = emit [SetText originalText] (write_btn (\<lambda>b. b\<lparr>innerText := originalText\<rparr>) p);
          p2 = emit [SetPointerEvents ''all''] (write_btn (\<lambda>b. b\<lparr>pointerEvents := ''all''\<rparr>) p1)
      in emit [SetColor ''''] (write_btn (\<lambda>b. b\<lparr>color := ''''\<rparr>) p2))"

text \<open>
  One submission with nothing else happening to the page meanwhile: the pages when the
  request leaves, when it has settled, and when the timer has fired; the page alone when
  a guard returned early.
\<close>

definition sendMessage :: "outcome \<Rightarrow> page \<Rightarrow> error + page list" where
  "sendMessage out p =
     (case sendMessage_start p of
        Inl e \<Rightarrow> Inl e
      | Inr (p1, None) \<Rightarrow> Inr [p1]
      | Inr (p1, Some originalText) \<Rightarrow>
          (let p2 = sendMessage_settle out originalText p1;
               p3 = revert originalText p2
           in Inr [p1, p2, p3]))"

text \<open>A button takes clicks unless its inline \<open>pointer-events\<close> is \<open>none\<close>.\<close>

definition clickable :: "button \<Rightarrow> bool" where
  "clickable b = (pointerEvents b \<noteq> ''none'')"

text \<open>The requests in a trace.\<close>

fun fetches :: "effect list \<Rightarrow> request list" where
  "fetches [] = []"
| "fetches (Fetch r # es) = r # fetches es"
| "fetches (x # es) = fetches es"

definition send_btn :: button where
  "send_btn = \<lparr>innerText = ''[ SEND ]'', pointerEvents = '''', color = ''''\<rparr>"

definition filled :: page where
  "filled = \<lparr>form = True, btn = Some send_btn, email = Some ''a@b.c'', message = Some ''hello'',
     email_default = '''', message_default = '''', trace = []\<rparr>"

definition unfilled :: page where
  "unfilled = filled\<lparr>message := Some []\<rparr>"

text \<open>
  The page while the failure message of a first submission from \<open>filled\<close> shows, and a
  page whose markup gives the control \<open>email\<close> a default value.
\<close>

definition retrying :: page where
  "retrying = projr (sendMessage Rejected filled) ! 1"

definition prefilled :: page where
  "prefilled = filled\<lparr>email_default := ''you@example.com''\<rparr>"


section \<open>Properties of the double-precision rounding\<close>

lemma rne_near: "\<bar>of_int (rne x) - x\<bar> \<le> 1 / 2"
proof -
  have "of_int \<lfloor>x\<rfloor> \<le> x" "x < of_int \<lfloor>x\<rfloor> + 1" by linarith+
  then show ?thesis by (auto simp: rne_def Let_def)
qed

lemma rne_unique: "\<bar>x - of_int n\<bar> < 1 / 2 \<Longrightarrow> rne x = n"
proof -
  assume a: "\<bar>x - of_int n\<bar> < 1 / 2"
  have "\<bar>of_int (rne x) - x\<bar> \<le> 1 / 2" by (rule rne_near)
  with a have "\<bar>(of_int (rne x) :: real) - of_int n\<bar> < 1" by linarith
  then have "\<bar>rne x - n\<bar> < 1"
    by (metis of_int_abs of_int_diff of_int_less_1_iff)
  then show ?thesis by simp
qed

lemma rne_of_int: "rne (of_int n) = n"
  by (rule rne_unique) simp

lemma rne_mono: "x \<le> y \<Longrightarrow> rne x \<le> rne y"
proof (rule ccontr)
  assume xy: "x \<le> y" and "\<not> rne x \<le> rne y"
  then have "rne y + 1 \<le> rne x" by simp
  then have "(of_int (rne y) :: real) + 1 \<le> of_int (rne x)"
    by (metis of_int_1 of_int_add of_int_le_iff)
  moreover have "\<bar>of_int (rne x) - x\<bar> \<le> 1 / 2" "\<bar>of_int (rne y) - y\<bar> \<le> 1 / 2"
    by (rule rne_near)+
  ultimately have "x = y" using xy by linarith
  with \<open>\<not> rne x \<le> rne y\<close> show False by simp
qed

lemma rne_minus: "rne (- x) = - rne x"
proof (cases "x - of_int \<lfloor>x\<rfloor> = 1 / 2")
  case True
  have "\<lfloor>- x\<rfloor> = - \<lfloor>x\<rfloor> - 1"
    by (rule floor_unique) (use True in simp_all)
  then show ?thesis using True by (simp add: rne_def Let_def)
next
  case False
  have "of_int \<lfloor>x\<rfloor> \<le> x" "x < of_int \<lfloor>x\<rfloor> + 1" by linarith+
  with False have "\<bar>- x - of_int (- rne x)\<bar> < 1 / 2"
    by (auto simp: rne_def Let_def)
  then show ?thesis by (rule rne_unique)
qed

lemma two_powr_pos: "0 < (2::real) powr a"
  by simp

lemma expo_subnormal: "\<bar>x\<bar> < 2 powr (- 1022) \<Longrightarrow> expo x = - 1022"
  by (simp add: expo_def)

lemma expo_normal: "2 powr (- 1022) \<le> \<bar>x\<bar> \<Longrightarrow> expo x = \<lfloor>log 2 \<bar>x\<bar>\<rfloor>"
  by (simp add: expo_def)

lemma normal_pos: "2 powr (- 1022) \<le> \<bar>x::real\<bar> \<Longrightarrow> 0 < \<bar>x\<bar>"
  using two_powr_pos [of "- 1022"] by linarith

lemma expo_ge: "- 1022 \<le> expo x"
proof (cases "\<bar>x\<bar> < 2 powr (- 1022)")
  case True
  then show ?thesis by (simp add: expo_subnormal)
next
  case False
  then have n: "2 powr (- 1022) \<le> \<bar>x\<bar>" by simp
  then have "log 2 (2 powr (- 1022)) \<le> log 2 \<bar>x\<bar>"
    using normal_pos [OF n] by (subst log_le_cancel_iff) simp_all
  then have "- 1022 \<le> log 2 \<bar>x\<bar>" by simp
  then have "- 1022 \<le> \<lfloor>log 2 \<bar>x\<bar>\<rfloor>" by linarith
  then show ?thesis by (simp add: expo_normal n)
qed

lemma expo_bounds:
  assumes "2 powr (- 1022) \<le> \<bar>x\<bar>"
  shows "2 powr of_int (expo x) \<le> \<bar>x\<bar>" "\<bar>x\<bar> < 2 powr (of_int (expo x) + 1)"
proof -
  note pos = normal_pos [OF assms]
  note e = expo_normal [OF assms]
  have "of_int \<lfloor>log 2 \<bar>x\<bar>\<rfloor> \<le> log 2 \<bar>x\<bar>" by linarith
  then have "2 powr of_int \<lfloor>log 2 \<bar>x\<bar>\<rfloor> \<le> 2 powr log 2 \<bar>x\<bar>"
    by (intro powr_mono) simp_all
  then show "2 powr of_int (expo x) \<le> \<bar>x\<bar>"
    using pos by (simp add: e)
  have "log 2 \<bar>x\<bar> < of_int \<lfloor>log 2 \<bar>x\<bar>\<rfloor> + 1" by linarith
  then have "2 powr log 2 \<bar>x\<bar> < 2 powr (of_int \<lfloor>log 2 \<bar>x\<bar>\<rfloor> + 1)"
    by (intro powr_less_mono) simp_all
  then show "\<bar>x\<bar> < 2 powr (of_int (expo x) + 1)"
    using pos by (simp add: e)
qed

lemma expo_eq:
  assumes "2 powr of_int e \<le> \<bar>x\<bar>" "\<bar>x\<bar> < 2 powr (of_int e + 1)" "- 1022 \<le> e"
  shows "expo x = e"
proof -
  have "(2::real) powr (- 1022) \<le> 2 powr of_int e"
    using assms(3) by (intro powr_mono) simp_all
  then have n: "2 powr (- 1022) \<le> \<bar>x\<bar>" using assms(1) by (rule order_trans)
  note pos = normal_pos [OF n]
  have "log 2 (2 powr of_int e) \<le> log 2 \<bar>x\<bar>"
    using assms(1) pos by (subst log_le_cancel_iff) simp_all
  then have "of_int e \<le> log 2 \<bar>x\<bar>" by simp
  moreover have "log 2 \<bar>x\<bar> < log 2 (2 powr (of_int e + 1))"
    using assms(2) pos by (subst log_less_cancel_iff) simp_all
  then have "log 2 \<bar>x\<bar> < of_int e + 1" by simp
  ultimately have "\<lfloor>log 2 \<bar>x\<bar>\<rfloor> = e" by linarith
  then show ?thesis by (simp add: expo_normal n)
qed

lemma expo_upper: "\<bar>x\<bar> < 2 powr (of_int (expo x) + 1)"
proof (cases "2 powr (- 1022) \<le> \<bar>x\<bar>")
  case True
  then show ?thesis by (rule expo_bounds)
next
  case False
  then have e: "expo x = - 1022" and lt: "\<bar>x\<bar> < 2 powr (- 1022)"
    by (simp_all add: expo_subnormal)
  have "(2::real) powr (- 1022) \<le> 2 powr (of_int (- 1022) + 1)"
    by (intro powr_mono) simp_all
  with lt have "\<bar>x\<bar> < 2 powr (of_int (- 1022) + 1)" by (rule less_le_trans)
  then show ?thesis by (simp only: e)
qed

lemma expo_lower: "- 1022 < expo x \<Longrightarrow> 2 powr of_int (expo x) \<le> \<bar>x\<bar>"
proof -
  assume a: "- 1022 < expo x"
  have "2 powr (- 1022) \<le> \<bar>x\<bar>"
  proof (rule ccontr)
    assume "\<not> 2 powr (- 1022) \<le> \<bar>x\<bar>"
    then have "expo x = - 1022" by (simp add: expo_subnormal)
    with a show False by simp
  qed
  then show ?thesis by (rule expo_bounds)
qed

lemma expo_mono: "\<bar>x\<bar> \<le> \<bar>y\<bar> \<Longrightarrow> expo x \<le> expo y"
proof (cases "2 powr (- 1022) \<le> \<bar>x\<bar>")
  case False
  then have "expo x = - 1022" by (simp add: expo_subnormal)
  then show ?thesis by (simp add: expo_ge)
next
  case True
  assume le: "\<bar>x\<bar> \<le> \<bar>y\<bar>"
  have "log 2 \<bar>x\<bar> \<le> log 2 \<bar>y\<bar>"
    using le normal_pos [OF True] by (subst log_le_cancel_iff) simp_all
  then have "\<lfloor>log 2 \<bar>x\<bar>\<rfloor> \<le> \<lfloor>log 2 \<bar>y\<bar>\<rfloor>" by (rule floor_mono)
  moreover have "2 powr (- 1022) \<le> \<bar>y\<bar>" using True le by (rule order_trans)
  ultimately show ?thesis using True by (simp only: expo_normal)
qed

lemma expo_minus: "expo (- x) = expo x"
  by (simp add: expo_def)

lemma quantum_pos: "0 < quantum x"
  by (simp add: quantum_def)

lemma quantum_minus: "quantum (- x) = quantum x"
  by (simp add: quantum_def expo_minus)

lemma quantum_times:
  "2 powr 52 * quantum x = 2 powr of_int (expo x)"
  "2 powr 53 * quantum x = 2 powr (of_int (expo x) + 1)"
proof -
  have "(2::real) powr 52 * 2 powr (of_int (expo x) - 52) = 2 powr (52 + (of_int (expo x) - 52))"
    by (rule powr_add [symmetric])
  moreover have "52 + (of_int (expo x) - 52) = (of_int (expo x) :: real)" by simp
  ultimately show "2 powr 52 * quantum x = 2 powr of_int (expo x)"
    by (simp only: quantum_def)
  have "(2::real) powr 53 * 2 powr (of_int (expo x) - 52) = 2 powr (53 + (of_int (expo x) - 52))"
    by (rule powr_add [symmetric])
  moreover have "53 + (of_int (expo x) - 52) = (of_int (expo x) + 1 :: real)" by simp
  ultimately show "2 powr 53 * quantum x = 2 powr (of_int (expo x) + 1)"
    by (simp only: quantum_def)
qed

lemma of_int_two_powr: "(of_int (2 ^ n) :: real) = 2 powr real n"
  by (simp add: powr_realpow)


lemma round64_minus: "round64 (- x) = - round64 x"
  by (simp add: round64_def quantum_minus rne_minus)

lemma round64_zero: "round64 0 = 0"
  using rne_of_int [of 0] by (simp add: round64_def)


lemma round64_nearest:
  assumes "quantum x = q" "\<bar>x - of_int m * q\<bar> < q / 2"
  shows "round64 x = of_int m * q"
proof -
  have q: "0 < q" using quantum_pos [of x] assms(1) by simp
  have "x / q - of_int m = (x - of_int m * q) / q"
    using q by (simp add: diff_divide_distrib)
  then have "\<bar>x / q - of_int m\<bar> = \<bar>x - of_int m * q\<bar> / q"
    using q by simp
  also have "\<dots> < 1 / 2"
    using assms(2) q by (simp add: divide_less_eq del: abs_divide)
  finally have "rne (x / q) = m" by (rule rne_unique)
  then show ?thesis by (simp add: round64_def assms(1))
qed

lemma round64_nonneg: "0 \<le> x \<Longrightarrow> 0 \<le> round64 x"
proof -
  assume "0 \<le> x"
  then have "rne 0 \<le> rne (x / quantum x)"
    using quantum_pos [of x] by (intro rne_mono) simp
  moreover have "rne 0 = 0" using rne_of_int [of 0] by simp
  ultimately show ?thesis using quantum_pos [of x] by (simp add: round64_def)
qed

lemma round64_le_top: "0 \<le> x \<Longrightarrow> round64 x \<le> 2 powr (of_int (expo x) + 1)"
proof -
  assume "0 \<le> x"
  have "\<bar>x\<bar> < 2 powr 53 * quantum x" using expo_upper [of x] by (simp only: quantum_times)
  then have "x / quantum x \<le> 2 powr 53"
    using quantum_pos [of x] \<open>0 \<le> x\<close> by (simp add: divide_le_eq)
  then have "x / quantum x \<le> of_int (2 ^ 53)" by (simp only: of_int_two_powr) simp
  then have "rne (x / quantum x) \<le> rne (of_int (2 ^ 53))" by (rule rne_mono)
  then have "rne (x / quantum x) \<le> 2 ^ 53" by (simp only: rne_of_int)
  then have "(of_int (rne (x / quantum x)) :: real) \<le> of_int (2 ^ 53)"
    by (simp only: of_int_le_iff)
  then have "of_int (rne (x / quantum x)) \<le> (2::real) powr 53"
    by (simp only: of_int_two_powr) simp
  then have "round64 x \<le> 2 powr 53 * quantum x"
    unfolding round64_def using quantum_pos [of x] by (intro mult_right_mono) simp_all
  then show ?thesis by (simp only: quantum_times)
qed

lemma round64_ge_bottom:
  assumes "0 \<le> x" "- 1022 < expo x"
  shows "2 powr of_int (expo x) \<le> round64 x"
proof -
  have "2 powr 52 * quantum x \<le> \<bar>x\<bar>"
    using expo_lower [OF assms(2)] by (simp only: quantum_times)
  then have "2 powr 52 \<le> x / quantum x"
    using quantum_pos [of x] assms(1) by (simp add: le_divide_eq)
  then have "of_int (2 ^ 52) \<le> x / quantum x" by (simp only: of_int_two_powr) simp
  then have "rne (of_int (2 ^ 52)) \<le> rne (x / quantum x)" by (rule rne_mono)
  then have "2 ^ 52 \<le> rne (x / quantum x)" by (simp only: rne_of_int)
  then have "(of_int (2 ^ 52) :: real) \<le> of_int (rne (x / quantum x))"
    by (simp only: of_int_le_iff)
  then have "(2::real) powr 52 \<le> of_int (rne (x / quantum x))"
    by (simp only: of_int_two_powr) simp
  then have "2 powr 52 * quantum x \<le> round64 x"
    unfolding round64_def using quantum_pos [of x] by (intro mult_right_mono) simp_all
  then show ?thesis by (simp only: quantum_times)
qed

lemma round64_mono_nonneg:
  assumes "0 \<le> x" "x \<le> y"
  shows "round64 x \<le> round64 y"
proof -
  have e: "expo x \<le> expo y" using assms by (intro expo_mono) simp
  show ?thesis
  proof (cases "expo x = expo y")
    case True
    then have q: "quantum x = quantum y" by (simp add: quantum_def)
    have "x / quantum y \<le> y / quantum y"
      using assms quantum_pos [of y] by (simp add: divide_right_mono)
    then have "rne (x / quantum y) \<le> rne (y / quantum y)" by (rule rne_mono)
    then show ?thesis using quantum_pos [of y] by (simp add: round64_def q)
  next
    case False
    with e expo_ge [of x] have lt: "expo x + 1 \<le> expo y" "- 1022 < expo y"
      by simp_all
    have "round64 x \<le> 2 powr (of_int (expo x) + 1)" using assms(1) by (rule round64_le_top)
    also have "\<dots> \<le> 2 powr of_int (expo y)"
    proof (rule powr_mono)
      from lt(1) have "of_int (expo x + 1) \<le> (of_int (expo y) :: real)"
        by (simp only: of_int_le_iff)
      then show "of_int (expo x) + 1 \<le> (of_int (expo y) :: real)" by simp
    qed simp
    also have "\<dots> \<le> round64 y" using assms lt(2) by (intro round64_ge_bottom) simp_all
    finally show ?thesis .
  qed
qed

lemma round64_mono: "x \<le> y \<Longrightarrow> round64 x \<le> round64 y"
proof -
  assume xy: "x \<le> y"
  consider "0 \<le> x" | "x < 0" "0 \<le> y" | "y < 0" by linarith
  then show ?thesis
  proof cases
    case 1
    then show ?thesis using xy by (rule round64_mono_nonneg)
  next
    case 2
    then have "round64 (- x) \<ge> 0" by (intro round64_nonneg) simp
    then have "round64 x \<le> 0" by (simp add: round64_minus)
    also have "0 \<le> round64 y" using 2 by (intro round64_nonneg)
    finally show ?thesis .
  next
    case 3
    then have "round64 (- y) \<le> round64 (- x)" using xy by (intro round64_mono_nonneg) simp_all
    then show ?thesis by (simp add: round64_minus)
  qed
qed

lemma quantum_eq:
  assumes "2 powr of_int e \<le> \<bar>x\<bar>" "\<bar>x\<bar> < 2 powr (of_int e + 1)" "- 1022 \<le> e"
  shows "quantum x = 2 powr (of_int e - 52)"
  using expo_eq [OF assms] by (simp add: quantum_def)

lemma round64_eval:
  assumes "2 powr of_int e \<le> \<bar>x\<bar>" "\<bar>x\<bar> < 2 powr (of_int e + 1)" "- 1022 \<le> e"
    and "\<bar>x - of_int m * 2 powr (of_int e - 52)\<bar> < 2 powr (of_int e - 52) / 2"
  shows "round64 x = of_int m * 2 powr (of_int e - 52)"
  using quantum_eq [OF assms(1-3)] assms(4) by (rule round64_nearest)

lemma round64_exact:
  assumes "2 powr of_int e \<le> \<bar>x\<bar>" "\<bar>x\<bar> < 2 powr (of_int e + 1)" "- 1022 \<le> e"
    and "x * 2 powr (52 - of_int e) \<in> \<int>"
  shows "round64 x = x"
proof -
  from assms(4) obtain m where m: "x * 2 powr (52 - of_int e) = of_int m"
    by (auto elim: Ints_cases)
  have "2 powr (52 - of_int e) * 2 powr (of_int e - 52) = (2::real) powr ((52 - of_int e) + (of_int e - 52))"
    by (rule powr_add [symmetric])
  then have one: "2 powr (52 - of_int e) * 2 powr (of_int e - 52) = (1::real)" by simp
  have "of_int m * 2 powr (of_int e - 52) = x * (2 powr (52 - of_int e) * 2 powr (of_int e - 52))"
    by (simp only: m [symmetric] mult.assoc)
  then have x: "of_int m * 2 powr (of_int e - 52) = x" by (simp only: one mult_1_right)
  have "round64 x = of_int m * 2 powr (of_int e - 52)"
    by (rule round64_eval [OF assms(1-3)]) (simp add: x)
  then show ?thesis by (simp only: x)
qed

lemma round64_fixed:
  assumes "quantum y = q" "y = of_int m * q"
  shows "round64 y = y"
proof -
  have "0 < q" using quantum_pos [of y] assms(1) by simp
  then have "y / q = of_int m" using assms(2) by simp
  then show ?thesis by (simp add: round64_def assms(1) rne_of_int assms(2) [symmetric])
qed

lemma round64_idem_nonneg:
  assumes "0 \<le> x"
  shows "round64 (round64 x) = round64 x"
proof -
  define y where "y = round64 x"
  define e where "e = expo x"
  have y0: "0 \<le> y" using assms by (simp add: y_def round64_nonneg)
  have top: "y \<le> 2 powr (of_int e + 1)" using assms by (simp add: y_def e_def round64_le_top)
  have rep: "y = of_int (rne (x / quantum x)) * quantum x" by (simp add: y_def round64_def)
  have e_ge: "- 1022 \<le> e" by (simp add: e_def expo_ge)
  have "round64 y = y"
  proof (cases "y < 2 powr (of_int e + 1)")
    case True
    have "expo y = e"
    proof (cases "2 powr (- 1022) \<le> y")
      case n: True
      have "2 powr of_int e \<le> y"
      proof (cases "- 1022 < e")
        case True
        then show ?thesis using assms by (simp add: y_def e_def round64_ge_bottom)
      next
        case False
        with e_ge have "e = - 1022" by simp
        then show ?thesis using n by simp
      qed
      then show ?thesis using True y0 e_ge by (intro expo_eq) simp_all
    next
      case False
      then have "expo y = - 1022" using y0 by (simp add: expo_subnormal)
      moreover have "e = - 1022"
      proof (rule ccontr)
        assume "e \<noteq> - 1022"
        with e_ge have lt: "- 1022 < e" by simp
        then have "2 powr of_int e \<le> y" using assms by (simp add: y_def e_def round64_ge_bottom)
        moreover have "(2::real) powr (- 1022) \<le> 2 powr of_int e"
          using lt by (intro powr_mono) simp_all
        ultimately show False using False by linarith
      qed
      ultimately show ?thesis by simp
    qed
    then have "quantum y = quantum x" by (simp add: quantum_def e_def)
    then show ?thesis using rep by (rule round64_fixed)
  next
    case False
    with top have y: "y = 2 powr (of_int (e + 1))" by simp
    have "(2::real) powr (of_int (e + 1)) < 2 powr (of_int (e + 1) + 1)"
      by (intro powr_less_mono) simp_all
    moreover have "2 powr of_int (e + 1) * 2 powr (52 - of_int (e + 1))
        = (2::real) powr (of_int (e + 1) + (52 - of_int (e + 1)))"
      by (rule powr_add [symmetric])
    then have "2 powr of_int (e + 1) * 2 powr (52 - of_int (e + 1)) = (2::real) powr 52"
      by simp
    then have "2 powr of_int (e + 1) * 2 powr (52 - of_int (e + 1)) \<in> (\<int> :: real set)"
      by simp
    ultimately show ?thesis
      unfolding y using e_ge by (intro round64_exact [of "e + 1"]) simp_all
  qed
  then show ?thesis by (simp add: y_def)
qed

lemma round64_idem: "round64 (round64 x) = round64 x"
proof (cases "0 \<le> x")
  case True
  then show ?thesis by (rule round64_idem_nonneg)
next
  case False
  then have "round64 (round64 (- x)) = round64 (- x)" by (intro round64_idem_nonneg) simp
  then show ?thesis by (simp add: round64_minus)
qed


lemma round64_of_int:
  assumes "\<bar>n\<bar> \<le> 2 ^ 53"
  shows "round64 (of_int n) = of_int n"
proof (cases "n = 0")
  case True
  then show ?thesis by (simp add: round64_zero)
next
  case False
  define x :: real where "x = of_int n"
  define e where "e = expo x"
  have one: "1 \<le> \<bar>x\<bar>" using False by (simp add: x_def flip: of_int_abs)
  have "(2::real) powr (- 1022) \<le> 2 powr 0" by (intro powr_mono) simp_all
  with one have n: "2 powr (- 1022) \<le> \<bar>x\<bar>" by simp
  have low: "2 powr of_int e \<le> \<bar>x\<bar>" unfolding e_def using n by (rule expo_bounds)
  have "\<bar>x\<bar> \<le> 2 ^ 53" using assms by (simp add: x_def flip: of_int_abs)
  with low have "2 powr of_int e \<le> (2::real) powr of_int 53" by simp
  then have "(of_int e :: real) \<le> of_int 53"
    by (subst (asm) powr_le_cancel_iff) simp_all
  then have e53: "e \<le> 53" by (simp only: of_int_le_iff)
  have e0: "0 \<le> e"
  proof -
    have "expo 1 \<le> expo x" using one by (intro expo_mono) simp
    moreover have "expo 1 = 0" by (rule expo_eq) simp_all
    ultimately show ?thesis by (simp add: e_def)
  qed
  show ?thesis
  proof (cases "e = 53")
    case True
    with low have "2 ^ 53 \<le> \<bar>x\<bar>" by simp
    with \<open>\<bar>x\<bar> \<le> 2 ^ 53\<close> have ax: "\<bar>x\<bar> = 2 ^ 53" by simp
    have q: "quantum x = 2" using True by (simp add: quantum_def e_def)
    have "\<bar>n\<bar> = 2 ^ 53" using ax by (simp add: x_def flip: of_int_abs)
    then have "n = 2 * 2 ^ 52 \<or> n = 2 * (- (2 ^ 52))" by simp linarith
    then obtain k where "n = 2 * k" by blast
    then have "x = of_int k * 2" by (simp add: x_def)
    with q show ?thesis unfolding x_def [symmetric] by (intro round64_fixed)
  next
    case False
    with e53 have e52: "e \<le> 52" by simp
    define k where "k = nat (52 - e)"
    have k: "of_int e - 52 = - real k" using e52 by (simp add: k_def)
    have q: "quantum x = 1 / 2 ^ k"
      by (simp add: quantum_def e_def [symmetric] k powr_minus_divide powr_realpow)
    have "x = of_int (n * 2 ^ k) * (1 / 2 ^ k)" by (simp add: x_def)
    with q show ?thesis unfolding x_def [symmetric] by (intro round64_fixed)
  qed
qed

lemma round64_numeral [simp]:
  "(numeral k :: int) \<le> 2 ^ 53 \<Longrightarrow> round64 (numeral k) = numeral k"
  "(numeral k :: int) \<le> 2 ^ 53 \<Longrightarrow> round64 (- numeral k) = - numeral k"
  using round64_of_int [of "numeral k"] round64_of_int [of "- numeral k"] by simp_all


lemma round64_ge: "round64 c = c \<Longrightarrow> c \<le> x \<Longrightarrow> c \<le> round64 x"
  using round64_mono [of c x] by simp


section \<open>Properties of the nebula background\<close>


lemma round64_299_2: "round64 (299 / 2) = 299 / 2"
  by (rule round64_exact [of 7]) simp_all

lemma round64_m299_2: "round64 (- (299 / 2)) = - (299 / 2)"
  by (rule round64_exact [of 7]) simp_all

lemma round64_89401_4: "round64 (89401 / 4) = 89401 / 4"
  by (rule round64_exact [of 14]) simp_all

lemma round64_179401_4: "round64 (179401 / 4) = 179401 / 4"
  by (rule round64_exact [of 15]) simp_all

lemma round64_1199_8: "round64 (1199 / 8) = 1199 / 8"
  by (rule round64_exact [of 7]) simp_all

lemma round64_m1199_8: "round64 (- (1199 / 8)) = - (1199 / 8)"
  by (rule round64_exact [of 7]) simp_all

lemma round64_1437601_64: "round64 (1437601 / 64) = 1437601 / 64"
  by (rule round64_exact [of 14]) simp_all

lemmas round64_dyadic = round64_299_2 round64_m299_2 round64_89401_4 round64_179401_4
  round64_1199_8 round64_m1199_8 round64_1437601_64

lemma sqrt_22500: "sqrt 22500 = 150"
  by (rule real_sqrt_unique) simp_all

lemma sqrt_89401_4: "sqrt (89401 / 4) = 299 / 2"
  by (rule real_sqrt_unique) (simp_all add: power2_eq_square)

lemma sqrt_1437601_64: "sqrt (1437601 / 64) = 1199 / 8"
  by (rule real_sqrt_unique) (simp_all add: power2_eq_square)

lemmas sqrt_values = sqrt_22500 sqrt_89401_4 sqrt_1437601_64

lemma dist64_150: "dist64 100 100 250 100 = 150"
  by (simp add: dist64_def fsub_def fmul_def fadd_def fsqrt_def round64_zero sqrt_values)

lemma dist64_below: "dist64 100 100 100 (499 / 2) = 299 / 2"
  by (simp add: dist64_def fsub_def fmul_def fadd_def fsqrt_def round64_zero round64_dyadic
      sqrt_values)

lemma dist64_above: "\<not> dist64 250 100 100 (499 / 2) < 150"
proof -
  have "150 \<le> sqrt (179401 / 4)" by (rule real_le_rsqrt) simp
  then have "150 \<le> round64 (sqrt (179401 / 4))" by (intro round64_ge) simp_all
  then show ?thesis
    by (simp add: dist64_def fsub_def fmul_def fadd_def fsqrt_def round64_dyadic)
qed











declare pair_loop.simps [simp del] node_loop.simps [simp del]

lemma Node_reset_calls: "snd (Node_reset rnd w h k) = k + 6"
  by (simp add: Node_reset_def)

lemma Node_reset_bounds:
  assumes "\<forall>k. 0 \<le> rnd k \<and> rnd k < 1"
  shows "\<not> off_surface w h (fst (Node_reset rnd w h k))"
proof -
  have a: "0 \<le> rnd k" "rnd k \<le> 1" "0 \<le> rnd (k + 1)" "rnd (k + 1) \<le> 1"
    using assms by (simp_all add: less_imp_le)
  have "rnd k * real w \<le> real w" "rnd (k + 1) * real h \<le> real h"
    using a by (simp_all add: mult_left_le_one_le)
  then show ?thesis using a by (simp add: off_surface_def Node_reset_def not_less)
qed

lemma Node_update_bounds:
  assumes "\<forall>k. 0 \<le> rnd k \<and> rnd k < 1"
  shows "\<not> off_surface w h (fst (Node_update rnd w h k p))"
  using Node_reset_bounds [OF assms] by (simp add: Node_update_def)

lemma pair_loop_map:
  "pair_loop ns i p1 j =
     map (\<lambda>j. Check i j (nx p1) (ny p1) (nx (ns ! j)) (ny (ns ! j))
            (dist64 (nx p1) (ny p1) (nx (ns ! j)) (ny (ns ! j)) < 150))
       [j ..< length ns]"
proof (induction ns i p1 j rule: pair_loop.induct)
  case (1 ns i p1 j)
  show ?case
  proof (cases "j < length ns")
    case True
    with "1.IH" show ?thesis
      by (subst pair_loop.simps) (simp add: Let_def upt_conv_Cons)
  next
    case False
    then show ?thesis by (subst pair_loop.simps) simp
  qed
qed

lemma node_loop_shape:
  "length (nodes (fst (node_loop rnd f i))) = length (nodes f)
   \<and> width (fst (node_loop rnd f i)) = width f
   \<and> height (fst (node_loop rnd f i)) = height f"
proof (induction rnd f i rule: node_loop.induct)
  case (1 rnd f i)
  show ?case
  proof (cases "i < length (nodes f)")
    case True
    with "1.IH" [OF True refl refl refl] show ?thesis
      by (subst (1 2 3) node_loop.simps) (simp add: Let_def)
  next
    case False
    then show ?thesis by (subst (1 2 3) node_loop.simps) simp
  qed
qed

lemma node_loop_before:
  "k < i \<Longrightarrow> nodes (fst (node_loop rnd f i)) ! k = nodes f ! k"
proof (induction rnd f i rule: node_loop.induct)
  case (1 rnd f i)
  show ?case
  proof (cases "i < length (nodes f)")
    case True
    with "1.IH" [OF True refl refl refl] "1.prems" show ?thesis
      by (subst node_loop.simps) (simp add: Let_def)
  next
    case False
    then show ?thesis by (subst node_loop.simps) simp
  qed
qed

lemma node_loop_unfold:
  "i < length (nodes f) \<Longrightarrow>
   node_loop rnd f i =
     (let r = Node_update rnd (width f) (height f) (calls f) (nodes f ! i);
          p1 = fst r;
          f1 = f\<lparr>nodes := (nodes f)[i := p1], calls := snd r\<rparr>;
          rest = node_loop rnd f1 (i + 1)
      in (fst rest,
          Arc i (nx p1) (ny p1) (nsize p1) (opacity p1)
            # pair_loop (nodes f1) i p1 (i + 1) @ snd rest))"
  by (subst node_loop.simps) simp

lemma node_loop_done: "\<not> i < length (nodes f) \<Longrightarrow> node_loop rnd f i = (f, [])"
  by (subst node_loop.simps) simp

lemma node_loop_bounds:
  "\<forall>k. 0 \<le> rnd k \<and> rnd k < 1 \<Longrightarrow> i \<le> k \<Longrightarrow> k < length (nodes f) \<Longrightarrow>
         \<not> off_surface (width f) (height f) (nodes (fst (node_loop rnd f i)) ! k)"
proof (induction rnd f i rule: node_loop.induct)
  case (1 rnd f i)
  then have less: "i < length (nodes f)" by simp
  define r where "r = Node_update rnd (width f) (height f) (calls f) (nodes f ! i)"
  define f1 where "f1 = f\<lparr>nodes := (nodes f)[i := fst r], calls := snd r\<rparr>"
  have res: "fst (node_loop rnd f i) = fst (node_loop rnd f1 (i + 1))"
    using less by (simp add: node_loop_unfold Let_def r_def f1_def)
  show ?case
  proof (cases "k = i")
    case True
    have "nodes (fst (node_loop rnd f1 (i + 1))) ! i = nodes f1 ! i"
      by (rule node_loop_before) simp
    also have "\<dots> = fst r" using less by (simp add: f1_def)
    finally show ?thesis
      using Node_update_bounds [OF "1.prems"(1), of "width f" "height f" "calls f" "nodes f ! i"]
      by (simp add: res True r_def)
  next
    case False
    with "1.prems" have "i + 1 \<le> k" "k < length (nodes f1)" by (simp_all add: f1_def)
    with "1.IH" [OF less refl refl refl "1.prems"(1)]
    show ?thesis by (simp add: res f1_def r_def)
  qed
qed

text \<open>
  Claim C1, as amended: with every value of \<open>Math.random()\<close> in \<open>[0, 1)\<close>, a particle's
  position lies in the closed rectangle \<open>[0, width] \<times> [0, height]\<close> immediately after its
  update step, and so does every particle's position after a call of \<open>animate\<close>: the
  bounds test of \<open>Node.update\<close> resets a particle only when a coordinate is below 0 or
  strictly above the stored dimension.
\<close>

theorem update_within_closed_bounds:
  assumes "\<forall>k. 0 \<le> rnd k \<and> rnd k < 1"
  shows "(let q = fst (Node_update rnd w h k p)
          in 0 \<le> nx q \<and> nx q \<le> real w \<and> 0 \<le> ny q \<and> ny q \<le> real h)
       \<and> (\<forall>q \<in> set (nodes (fst (animate rnd f))).
            0 \<le> nx q \<and> nx q \<le> real (width f) \<and> 0 \<le> ny q \<and> ny q \<le> real (height f))"
proof -
  have one: "let q = fst (Node_update rnd w h k p)
        in 0 \<le> nx q \<and> nx q \<le> real w \<and> 0 \<le> ny q \<and> ny q \<le> real h"
    using Node_update_bounds [OF assms, of w h k p]
    by (simp add: Let_def off_surface_def not_less)
  have "0 \<le> nx q \<and> nx q \<le> real (width f) \<and> 0 \<le> ny q \<and> ny q \<le> real (height f)"
    if "q \<in> set (nodes (fst (animate rnd f)))" for q
  proof -
    from that obtain j where j: "j < length (nodes f)" "q = nodes (fst (animate rnd f)) ! j"
      by (auto simp: in_set_conv_nth animate_def node_loop_shape)
    from node_loop_bounds [OF assms _ j(1), of 0] j(2)
    show ?thesis by (simp add: animate_def off_surface_def not_less)
  qed
  with one show ?thesis by blast
qed

lemma animate_leaving:
  "nodes (fst (animate half_source leaving)) =
     [\<lparr>nx = 400, ny = 300, nsize = 2, speedX = 0, speedY = 0, opacity = 0.45\<rparr>,
      \<lparr>nx = 99.75, ny = 100, nsize = 2, speedX = - 0.25, speedY = 0, opacity = 0.5\<rparr>]"
  by (simp add: animate_def leaving_def node_loop_unfold node_loop_done Let_def
      Node_update_def Node_reset_def advance_def off_surface_def half_source_def)

theorem update_within_closed_bounds_witness:
  "(\<forall>k. 0 \<le> half_source k \<and> half_source k < 1)
   \<and> nodes (fst (animate half_source leaving)) =
       [\<lparr>nx = 400, ny = 300, nsize = 2, speedX = 0, speedY = 0, opacity = 0.45\<rparr>,
        \<lparr>nx = 99.75, ny = 100, nsize = 2, speedX = - 0.25, speedY = 0, opacity = 0.5\<rparr>]
   \<and> 0 \<le> nx (nodes (fst (animate half_source leaving)) ! 0)
   \<and> nx (nodes (fst (animate half_source leaving)) ! 0) \<le> real (width leaving)
   \<and> 0 \<le> ny (nodes (fst (animate half_source leaving)) ! 0)
   \<and> ny (nodes (fst (animate half_source leaving)) ! 0) \<le> real (height leaving)"
proof -
  have h: "\<forall>k. 0 \<le> half_source k \<and> half_source k < 1"
    by (simp add: half_source_def)
  from update_within_closed_bounds [OF h, of 800 600 0 "nodes leaving ! 0" leaving]
  show ?thesis using h animate_leaving by simp
qed

text \<open>
  Claim C1 as stated fails: a particle constructed at \<open>x = 1023.75\<close> with \<open>speedX = 0.25\<close>
  on a surface of width 1024 is at \<open>x = 1024\<close> after its update step, which is not below
  the width, and it is not reset.
\<close>

theorem update_reaches_width_counterexample:
  "\<not> (0 \<le> nx (fst (Node_update edge_source 1024 768 6 edge_node))
      \<and> nx (fst (Node_update edge_source 1024 768 6 edge_node)) < real (1024 :: nat)
      \<and> 0 \<le> ny (fst (Node_update edge_source 1024 768 6 edge_node))
      \<and> ny (fst (Node_update edge_source 1024 768 6 edge_node)) < real (768 :: nat))"
  by (simp add: Node_update_def Node_reset_def advance_def off_surface_def edge_source_def
      edge_node_def)

lemma node_loop_fst:
  "i < length (nodes f) \<Longrightarrow>
   fst (node_loop rnd f i) =
     fst (node_loop rnd
       (f\<lparr>nodes := (nodes f)[i := fst (Node_update rnd (width f) (height f) (calls f) (nodes f ! i))],
          calls := snd (Node_update rnd (width f) (height f) (calls f) (nodes f ! i))\<rparr>) (i + 1))"
  by (simp add: node_loop_unfold Let_def)


lemma tested_append: "tested (xs @ ys) = tested xs @ tested ys"
  by (induction xs rule: tested.induct) simp_all

lemma tested_map_Check:
  "tested (map (\<lambda>j. Check i j (a j) (b j) (c j) (d j) (s j)) xs) = map (\<lambda>j. (i, j)) xs"
  by (induction xs) simp_all

lemma tested_pair_loop: "tested (pair_loop ns i p1 j) = map (\<lambda>j. (i, j)) [j ..< length ns]"
  by (simp only: pair_loop_map tested_map_Check)

lemma stroked_subset: "set (stroked es) \<subseteq> set (tested es)"
  by (induction es rule: stroked.induct) auto

lemma stroked_distinct: "distinct (tested es) \<Longrightarrow> distinct (stroked es)"
  using stroked_subset by (induction es rule: stroked.induct) auto

lemma node_loop_tested:
  "distinct (tested (snd (node_loop rnd f i0)))
   \<and> set (tested (snd (node_loop rnd f i0))) = {(i, j). i0 \<le> i \<and> i < j \<and> j < length (nodes f)}"
proof (induction rnd f i0 rule: node_loop.induct)
  case (1 rnd f i0)
  show ?case
  proof (cases "i0 < length (nodes f)")
    case False
    then show ?thesis by (auto simp: node_loop_done)
  next
    case True
    define r where "r = Node_update rnd (width f) (height f) (calls f) (nodes f ! i0)"
    define f1 where "f1 = f\<lparr>nodes := (nodes f)[i0 := fst r], calls := snd r\<rparr>"
    have evs: "tested (snd (node_loop rnd f i0)) =
        map (\<lambda>j. (i0, j)) [i0 + 1 ..< length (nodes f)] @ tested (snd (node_loop rnd f1 (i0 + 1)))"
      using True by (simp add: node_loop_unfold Let_def f1_def r_def tested_append tested_pair_loop)
    have IH: "distinct (tested (snd (node_loop rnd f1 (i0 + 1))))"
      "set (tested (snd (node_loop rnd f1 (i0 + 1)))) =
         {(i, j). i0 + 1 \<le> i \<and> i < j \<and> j < length (nodes f)}"
      using "1.IH" [OF True refl refl refl] by (simp_all add: f1_def r_def)
    have d: "distinct (map (\<lambda>j. (i0, j)) [i0 + 1 ..< length (nodes f)])"
      by (simp add: distinct_map inj_on_def)
    have s1: "set (map (\<lambda>j. (i0, j)) [i0 + 1 ..< length (nodes f)]) =
        {(i, j). i = i0 \<and> i < j \<and> j < length (nodes f)}"
      by auto
    have disj: "{(i, j). i = i0 \<and> i < j \<and> j < length (nodes f)}
        \<inter> {(i, j). i0 + 1 \<le> i \<and> i < j \<and> j < length (nodes f)} = {}"
      by auto
    have un: "{(i, j). i = i0 \<and> i < j \<and> j < length (nodes f)}
        \<union> {(i, j). i0 + 1 \<le> i \<and> i < j \<and> j < length (nodes f)}
        = {(i, j). i0 \<le> i \<and> i < j \<and> j < length (nodes f)}"
      by auto
    show ?thesis
      by (simp only: evs distinct_append set_append IH d s1 disj un simp_thms)
  qed
qed

lemma pair_loop_unfold:
  "j < length ns \<Longrightarrow>
   pair_loop ns i p1 j =
     Check i j (nx p1) (ny p1) (nx (ns ! j)) (ny (ns ! j))
       (dist64 (nx p1) (ny p1) (nx (ns ! j)) (ny (ns ! j)) < 150)
       # pair_loop ns i p1 (j + 1)"
  by (subst pair_loop.simps) (simp add: Let_def)

lemma pair_loop_done: "\<not> j < length ns \<Longrightarrow> pair_loop ns i p1 j = []"
  by (subst pair_loop.simps) simp

lemma animate_boundary:
  "animate half_source boundary =
     (boundary,
      [Arc 0 100 100 1 0.5,
       Check 0 1 100 100 250 100 False,
       Check 0 2 100 100 100 249.5 True,
       Arc 1 250 100 1 0.5,
       Check 1 2 250 100 100 249.5 False,
       Arc 2 100 249.5 1 0.5])"
  by (simp add: animate_def boundary_def node_loop_unfold node_loop_done Let_def
      pair_loop_unfold pair_loop_done dist64_150 dist64_below dist64_above
      Node_update_def advance_def off_surface_def)






text \<open>
  Claim C3: a call of \<open>animate\<close> tests every index pair \<open>i < j\<close> below \<open>nodes.length\<close>
  exactly once (the list of tested pairs has no repetition and holds exactly these pairs),
  so no pair has its segment stroked more than once in the frame.
\<close>

theorem each_pair_tested_once:
  "distinct (tested (snd (animate rnd f)))
   \<and> set (tested (snd (animate rnd f))) = {(i, j). i < j \<and> j < length (nodes f)}
   \<and> distinct (stroked (snd (animate rnd f)))"
  unfolding animate_def
  using node_loop_tested [of rnd f 0] stroked_distinct [of "snd (node_loop rnd f 0)"] by simp

theorem each_pair_tested_once_witness:
  "tested (snd (animate half_source boundary)) = [(0, 1), (0, 2), (1, 2)]
   \<and> stroked (snd (animate half_source boundary)) = [(0, 2)]
   \<and> distinct (tested (snd (animate half_source boundary)))
   \<and> distinct (stroked (snd (animate half_source boundary)))"
  using each_pair_tested_once [of half_source boundary] by (simp add: animate_boundary)

lemma new_nodes_length: "length (fst (new_nodes rnd w h k n)) = n"
  by (induction n arbitrary: k) (simp_all add: Let_def)

lemma new_nodes_map:
  "fst (new_nodes rnd w h k n) = map (\<lambda>i. fst (Node_reset rnd w h (k + 6 * i))) [0 ..< n]"
proof (induction n arbitrary: k)
  case 0
  show ?case by simp
next
  case (Suc n)
  have "fst (new_nodes rnd w h k (Suc n)) =
      fst (Node_reset rnd w h k) # fst (new_nodes rnd w h (k + 6) n)"
    by (simp add: Let_def Node_reset_calls)
  also have "\<dots> = fst (Node_reset rnd w h k)
      # map (\<lambda>i. fst (Node_reset rnd w h (k + 6 * Suc i))) [0 ..< n]"
    by (simp add: Suc.IH add.assoc)
  also have "\<dots> = map (\<lambda>i. fst (Node_reset rnd w h (k + 6 * i))) [0 ..< Suc n]"
    by (simp only: map_upt_Suc mult_0_right add_0_right)
  finally show ?case .
qed

text \<open>
  Claim C4: once the canvas is there, \<open>initNebulaBackground\<close> always returns a field, for
  every window and every random source, and the field holds exactly \<open>nodeCount\<close> nodes:
  30 when \<open>window.innerWidth\<close> is below 800, otherwise 60. The first frame, drawn at
  once, does not change the count.
\<close>

theorem initialize_builds_nodeCount:
  "length (nodes (initial_field win rnd)) = (if innerWidth win < 800 then 30 else 60)
   \<and> (\<exists>r. initNebulaBackground True win rnd = Some r
        \<and> length (nodes (fst r)) = (if innerWidth win < 800 then 30 else 60))"
proof -
  have a: "length (nodes (initial_field win rnd)) = nodeCount win"
    by (simp add: initial_field_def Let_def new_nodes_length)
  have "initNebulaBackground True win rnd = Some (animate rnd (initial_field win rnd))"
    by (simp add: initNebulaBackground_def)
  moreover have "length (nodes (fst (animate rnd (initial_field win rnd)))) = nodeCount win"
    by (simp add: animate_def node_loop_shape a)
  ultimately show ?thesis using a by (simp add: nodeCount_def)
qed

theorem initialize_builds_nodeCount_witness:
  "length (nodes (initial_field narrow half_source)) = 30
   \<and> length (nodes (initial_field wide half_source)) = 60"
  using initialize_builds_nodeCount [of narrow half_source]
    initialize_builds_nodeCount [of wide half_source]
  by (simp add: narrow_def wide_def)

text \<open>
  Claim C6: \<open>resize\<close> stores the window's dimensions and leaves the nodes (positions,
  velocities, radii, opacities) and the random source untouched; it is a total function
  of any field. The \<open>resize()\<close> that precedes the construction of the nodes is observed
  by it: the field has the window's dimensions and node \<open>i\<close> is drawn from them with the
  calls \<open>6 i\<close> to \<open>6 i + 5\<close> of \<open>Math.random()\<close>.
\<close>

theorem resize_keeps_nodes:
  "nodes (resize win f) = nodes f \<and> calls (resize win f) = calls f
   \<and> width (resize win f) = innerWidth win \<and> height (resize win f) = innerHeight win
   \<and> width (initial_field win rnd) = innerWidth win
   \<and> height (initial_field win rnd) = innerHeight win
   \<and> nodes (initial_field win rnd) =
       map (\<lambda>i. fst (Node_reset rnd (innerWidth win) (innerHeight win) (6 * i)))
         [0 ..< nodeCount win]"
  using new_nodes_map [of rnd "innerWidth win" "innerHeight win" 0 "nodeCount win"]
  by (simp add: resize_def initial_field_def Let_def unsized_def)




lemma Node_reset_agree:
  "\<forall>k\<ge>k0. r1 k = r2 k \<Longrightarrow> Node_reset r1 w h k0 = Node_reset r2 w h k0"
  by (simp add: Node_reset_def)

lemma Node_update_agree:
  "\<forall>k\<ge>k0. r1 k = r2 k \<Longrightarrow> Node_update r1 w h k0 p = Node_update r2 w h k0 p"
  using Node_reset_agree [of k0 r1 r2 w h] by (simp add: Node_update_def)

lemma Node_update_calls: "k \<le> snd (Node_update rnd w h k p)"
  by (simp add: Node_update_def Node_reset_def)

lemma node_loop_agree:
  "\<forall>k\<ge>calls f. r1 k = r2 k \<Longrightarrow> node_loop r1 f i = node_loop r2 f i"
proof (induction r1 f i rule: node_loop.induct)
  case (1 r1 f i)
  show ?case
  proof (cases "i < length (nodes f)")
    case False
    then show ?thesis by (simp add: node_loop_done)
  next
    case True
    define r where "r = Node_update r1 (width f) (height f) (calls f) (nodes f ! i)"
    define f1 where "f1 = f\<lparr>nodes := (nodes f)[i := fst r], calls := snd r\<rparr>"
    have same: "Node_update r2 (width f) (height f) (calls f) (nodes f ! i) = r"
      unfolding r_def by (rule Node_update_agree [symmetric]) (rule "1.prems")
    have "calls f \<le> calls f1"
      by (simp add: f1_def r_def Node_update_calls)
    with "1.prems" have "\<forall>k\<ge>calls f1. r1 k = r2 k" by simp
    with "1.IH" [OF True refl refl refl]
    have "node_loop r1 f1 (i + 1) = node_loop r2 f1 (i + 1)"
      by (simp add: f1_def r_def)
    then show ?thesis
      using True by (simp add: node_loop_unfold Let_def same) (simp add: f1_def r_def)
  qed
qed

lemma node_loop_calls: "calls f \<le> calls (fst (node_loop rnd f i))"
proof (induction rnd f i rule: node_loop.induct)
  case (1 rnd f i)
  show ?case
  proof (cases "i < length (nodes f)")
    case False
    then show ?thesis by (simp add: node_loop_done)
  next
    case True
    have "calls f \<le> snd (Node_update rnd (width f) (height f) (calls f) (nodes f ! i))"
      by (rule Node_update_calls)
    with "1.IH" [OF True refl refl refl] show ?thesis
      using True by (simp add: node_loop_fst)
  qed
qed

text \<open>
  Claim C7: with \<open>Math.random()\<close> an explicit source, a run of \<open>animate\<close> calls is
  determined by the starting field and by the values the source returns from then on:
  two sources that agree on every call still to come (equal seeds) give, from the same
  field, the same field after each of the \<open>n\<close> frames, with all positions, velocities,
  radii and opacities, and the same events in a frame.
\<close>

theorem frames_determined_by_source:
  assumes "\<forall>k\<ge>calls f. r1 k = r2 k"
  shows "frames r1 n f = frames r2 n f \<and> animate r1 f = animate r2 f"
proof -
  have "frames r1 n f = frames r2 n f" using assms
  proof (induction n arbitrary: f)
    case 0
    show ?case by simp
  next
    case (Suc n)
    have a: "animate r1 f = animate r2 f"
      unfolding animate_def by (rule node_loop_agree) (rule Suc.prems)
    have "calls f \<le> calls (fst (animate r2 f))"
      by (simp add: animate_def node_loop_calls)
    with Suc.prems have "\<forall>k\<ge>calls (fst (animate r2 f)). r1 k = r2 k" by simp
    then have "frames r1 n (fst (animate r2 f)) = frames r2 n (fst (animate r2 f))"
      by (rule Suc.IH)
    then show ?case by (simp add: Let_def a)
  qed
  moreover have "animate r1 f = animate r2 f"
    unfolding animate_def by (rule node_loop_agree) (rule assms)
  ultimately show ?thesis by simp
qed

theorem frames_determined_by_source_witness:
  "half_source 0 \<noteq> edge_source 0
   \<and> frames half_source 2 later = frames edge_source 2 later
   \<and> map nodes (frames edge_source 2 later) =
       [[\<lparr>nx = 400, ny = 300, nsize = 2, speedX = 0, speedY = 0, opacity = 0.45\<rparr>,
         \<lparr>nx = 99.75, ny = 100, nsize = 2, speedX = - 0.25, speedY = 0, opacity = 0.5\<rparr>],
        [\<lparr>nx = 400, ny = 300, nsize = 2, speedX = 0, speedY = 0, opacity = 0.45\<rparr>,
         \<lparr>nx = 99.5, ny = 100, nsize = 2, speedX = - 0.25, speedY = 0, opacity = 0.5\<rparr>]]"
proof -
  have h: "\<forall>k\<ge>calls later. half_source k = edge_source k"
    by (simp add: later_def half_source_def edge_source_def)
  have "map nodes (frames half_source 2 later) =
       [[\<lparr>nx = 400, ny = 300, nsize = 2, speedX = 0, speedY = 0, opacity = 0.45\<rparr>,
         \<lparr>nx = 99.75, ny = 100, nsize = 2, speedX = - 0.25, speedY = 0, opacity = 0.5\<rparr>],
        [\<lparr>nx = 400, ny = 300, nsize = 2, speedX = 0, speedY = 0, opacity = 0.45\<rparr>,
         \<lparr>nx = 99.5, ny = 100, nsize = 2, speedX = - 0.25, speedY = 0, opacity = 0.5\<rparr>]]"
    by (simp add: numeral_2_eq_2 animate_def later_def node_loop_unfold node_loop_done Let_def
      Node_update_def Node_reset_def advance_def off_surface_def half_source_def)
  moreover have "half_source 0 \<noteq> edge_source 0"
    by (simp add: half_source_def edge_source_def)
  ultimately show ?thesis
    using frames_determined_by_source [OF h, of 2] by simp
qed


section \<open>Properties of the connection test of the globe\<close>











lemma squared_threshold_fixed: "round64 (squared_threshold radius) = squared_threshold radius"
  by (simp add: squared_threshold_def fmul_def round64_idem)































section \<open>Properties of the contact form\<close>

lemma fetches_append: "fetches (xs @ ys) = fetches xs @ fetches ys"
  by (induction xs rule: fetches.induct) simp_all

lemma sendMessage_start_sends:
  assumes "form p" "btn p = Some b" "email p = Some e" "message p = Some m" "e \<noteq> []" "m \<noteq> []"
  shows "sendMessage_start p =
      Inr (p\<lparr>btn := Some (b\<lparr>innerText := ''[ TRANSMITTING... ]'', pointerEvents := ''none''\<rparr>),
             trace := trace p @ [SetText ''[ TRANSMITTING... ]'', SetPointerEvents ''none'',
               Fetch (post e m)]\<rparr>,
           Some (innerText b))"
  using assms by (simp add: sendMessage_start_def Let_def emit_def write_btn_def)

lemma succeeded_page:
  "succeeded p =
     p\<lparr>btn := map_option (\<lambda>b. b\<lparr>innerText := ''[ TRANSMISSION SUCCESS ]'',
                color := ''var(--highlight-color)''\<rparr>) (btn p),
       email := map_option (\<lambda>v. email_default p) (email p),
       message := map_option (\<lambda>v. message_default p) (message p),
       trace := trace p @ [SetText ''[ TRANSMISSION SUCCESS ]'',
         SetColor ''var(--highlight-color)'', FormReset]\<rparr>"
  by (simp add: succeeded_def Let_def emit_def write_btn_def option.map_comp comp_def)

lemma failed_page:
  "failed p =
     p\<lparr>btn := map_option (\<lambda>b. b\<lparr>innerText := ''[ FAILED. RETRY? ]'', color := ''#ff3333''\<rparr>) (btn p),
       trace := trace p @ [SetText ''[ FAILED. RETRY? ]'', SetColor ''#ff3333'', ConsoleError]\<rparr>"
  by (simp add: failed_def Let_def emit_def write_btn_def option.map_comp comp_def)

lemma revert_page:
  "revert t p =
     p\<lparr>btn := map_option (\<lambda>b. b\<lparr>innerText := t, pointerEvents := ''all'', color := []\<rparr>) (btn p),
       trace := trace p @ [SetText t, SetPointerEvents ''all'', SetColor []]\<rparr>"
  by (simp add: revert_def Let_def emit_def write_btn_def option.map_comp comp_def)

text \<open>
  Claim C9, as amended: a submission that passes the guards. The page when the request
  leaves is in the sending state (text set, not clickable), and the sending state is
  entered before the one \<open>fetch\<close>, a JSON POST of \<open>email\<close>, \<open>message\<close> and \<open>_subject\<close>. When
  the request has settled the page is in the success state, with the form reset to its
  default values, exactly when the response is ok, and in the failure state, with the
  form as it was, for a response that is not ok and for a rejected request. In every case
  a timer of 3000 ms is set, and when it fires the button gets back the text it had when
  \<open>sendMessage\<close> was called, its inline colour is cleared and its \<open>pointer-events\<close> is set
  to \<open>all\<close>, whatever they were before. No second request is made.
\<close>

theorem sendMessage_three_states:
  assumes "form p" "btn p = Some b" "email p = Some e" "message p = Some m"
    and "e \<noteq> []" "m \<noteq> []"
  shows "\<exists>p1 p2 p3. sendMessage out p = Inr [p1, p2, p3]
    \<and> btn p1 = Some (b\<lparr>innerText := ''[ TRANSMITTING... ]'', pointerEvents := ''none''\<rparr>)
    \<and> \<not> clickable (b\<lparr>innerText := ''[ TRANSMITTING... ]'', pointerEvents := ''none''\<rparr>)
    \<and> email p1 = Some e \<and> message p1 = Some m
    \<and> trace p1 = trace p @ [SetText ''[ TRANSMITTING... ]'', SetPointerEvents ''none'',
          Fetch (post e m)]
    \<and> http_method (post e m) = ''POST'' \<and> content_type (post e m) = ''application/json''
    \<and> body (post e m) = [(''email'', e), (''message'', m),
          (''_subject'', ''New Transmission from NM. Portfolio!'')]
    \<and> btn p2 = Some (b\<lparr>innerText :=
            (if out = Response True then ''[ TRANSMISSION SUCCESS ]'' else ''[ FAILED. RETRY? ]''),
          pointerEvents := ''none'',
          color := (if out = Response True then ''var(--highlight-color)'' else ''#ff3333'')\<rparr>)
    \<and> email p2 = Some (if out = Response True then email_default p else e)
    \<and> message p2 = Some (if out = Response True then message_default p else m)
    \<and> trace p2 = trace p1
          @ (if out = Response True
             then [SetText ''[ TRANSMISSION SUCCESS ]'', SetColor ''var(--highlight-color)'',
                   FormReset]
             else [SetText ''[ FAILED. RETRY? ]'', SetColor ''#ff3333'', ConsoleError])
          @ [SetTimeout 3000 (innerText b)]
    \<and> btn p3 = Some (b\<lparr>pointerEvents := ''all'', color := []\<rparr>)
    \<and> innerText (b\<lparr>pointerEvents := ''all'', color := []\<rparr>) = innerText b
    \<and> clickable (b\<lparr>pointerEvents := ''all'', color := []\<rparr>)
    \<and> email p3 = email p2 \<and> message p3 = message p2
    \<and> trace p3 = trace p2 @ [SetText (innerText b), SetPointerEvents ''all'', SetColor []]
    \<and> fetches (trace p3) = fetches (trace p) @ [post e m]"
proof -
  note start = sendMessage_start_sends [OF assms(1-6)]
  have rest: "b\<lparr>innerText := innerText b, pointerEvents := ''all'', color := []\<rparr>
      = b\<lparr>pointerEvents := ''all'', color := []\<rparr>"
    by simp
  show ?thesis
  proof (cases "out = Response True")
    case True
    then show ?thesis
      using assms rest
      by (simp add: sendMessage_def start sendMessage_settle_def succeeded_page revert_page
          emit_def post_def fetches_append clickable_def)
  next
    case False
    then have "(case out of Response ok \<Rightarrow> if ok then succeeded q else failed q
        | Rejected \<Rightarrow> failed q) = failed q" for q
      by (cases out) auto
    with False show ?thesis
      using assms rest
      by (simp add: sendMessage_def start sendMessage_settle_def failed_page revert_page
          emit_def post_def fetches_append clickable_def)
  qed
qed

theorem sendMessage_three_states_witness:
  "\<exists>p1 p2 p3. sendMessage (Response True) filled = Inr [p1, p2, p3]
     \<and> btn p1 = Some (send_btn\<lparr>innerText := ''[ TRANSMITTING... ]'', pointerEvents := ''none''\<rparr>)
     \<and> btn p2 = Some (send_btn\<lparr>innerText := ''[ TRANSMISSION SUCCESS ]'',
           pointerEvents := ''none'', color := ''var(--highlight-color)''\<rparr>)
     \<and> email p2 = Some [] \<and> message p2 = Some []
     \<and> btn p3 = Some (send_btn\<lparr>pointerEvents := ''all''\<rparr>)
     \<and> fetches (trace p3) = [post ''a@b.c'' ''hello'']"
  using sendMessage_three_states [of filled send_btn "''a@b.c''" "''hello''" "Response True"]
  by (simp add: filled_def send_btn_def clickable_def) blast

lemma sendMessage_filled_rejected:
  "sendMessage Rejected filled = Inr
     [filled\<lparr>btn := Some (send_btn\<lparr>innerText := ''[ TRANSMITTING... ]'', pointerEvents := ''none''\<rparr>),
        trace := [SetText ''[ TRANSMITTING... ]'', SetPointerEvents ''none'',
          Fetch (post ''a@b.c'' ''hello'')]\<rparr>,
      filled\<lparr>btn := Some \<lparr>innerText = ''[ FAILED. RETRY? ]'', pointerEvents = ''none'',
          color = ''#ff3333''\<rparr>,
        trace := [SetText ''[ TRANSMITTING... ]'', SetPointerEvents ''none'',
          Fetch (post ''a@b.c'' ''hello''), SetText ''[ FAILED. RETRY? ]'', SetColor ''#ff3333'',
          ConsoleError, SetTimeout 3000 ''[ SEND ]'']\<rparr>,
      filled\<lparr>btn := Some \<lparr>innerText = ''[ SEND ]'', pointerEvents = ''all'', color = []\<rparr>,
        trace := [SetText ''[ TRANSMITTING... ]'', SetPointerEvents ''none'',
          Fetch (post ''a@b.c'' ''hello''), SetText ''[ FAILED. RETRY? ]'', SetColor ''#ff3333'',
          ConsoleError, SetTimeout 3000 ''[ SEND ]'', SetText ''[ SEND ]'',
          SetPointerEvents ''all'', SetColor []]\<rparr>]"
  by (simp add: sendMessage_def sendMessage_start_def sendMessage_settle_def failed_page
      revert_page emit_def write_btn_def filled_def send_btn_def Let_def)

lemma btn_retrying:
  "btn retrying = Some \<lparr>innerText = ''[ FAILED. RETRY? ]'', pointerEvents = ''none'',
     color = ''#ff3333''\<rparr>"
  "form retrying" "email retrying = Some ''a@b.c''" "message retrying = Some ''hello''"
  by (simp_all add: retrying_def sendMessage_filled_rejected) (simp_all add: filled_def)

text \<open>
  Claim C9 as stated fails. \<open>retrying\<close> is the page while the failure message of a first
  submission shows: the button is red and takes no clicks, the form is still filled. A
  second call of \<open>sendMessage\<close> from it ends with the failure text it started with, but
  with the inline colour cleared and the button clickable: neither is what the button
  had when \<open>sendMessage\<close> was called. (The timer of the first submission, still pending
  then, writes the same colour and \<open>pointer-events\<close>, and its text is overwritten by the
  later timer: the final button is the same with it.) And on a page whose markup gives
  \<open>email\<close> a default value, the form holds that value after a successful submission: it
  is reset, not cleared.
\<close>

theorem sendMessage_revert_not_original_counterexample:
  "map_option color (btn retrying) = Some ''#ff3333''
   \<and> map_option clickable (btn retrying) = Some False
   \<and> map_option innerText (btn retrying) = Some ''[ FAILED. RETRY? ]''
   \<and> map_option color (btn (projr (sendMessage Rejected retrying) ! 2)) = Some []
   \<and> map_option clickable (btn (projr (sendMessage Rejected retrying) ! 2)) = Some True
   \<and> map_option innerText (btn (projr (sendMessage Rejected retrying) ! 2))
        = Some ''[ FAILED. RETRY? ]''
   \<and> email (projr (sendMessage (Response True) prefilled) ! 1) = Some ''you@example.com''"
proof -
  have "email (projr (sendMessage (Response True) prefilled) ! 1) = Some ''you@example.com''"
    by (simp add: sendMessage_def sendMessage_start_def sendMessage_settle_def succeeded_page
        revert_page emit_def write_btn_def prefilled_def filled_def send_btn_def Let_def)
  moreover have "btn (projr (sendMessage Rejected retrying) ! 2)
      = Some \<lparr>innerText = ''[ FAILED. RETRY? ]'', pointerEvents = ''all'', color = []\<rparr>"
    by (simp add: sendMessage_def sendMessage_start_def sendMessage_settle_def failed_page
        revert_page emit_def write_btn_def btn_retrying Let_def)
  ultimately show ?thesis
    by (simp add: btn_retrying clickable_def)
qed

text \<open>
  Claim C10: when the value of \<open>email\<close> or of \<open>message\<close> is the empty string,
  \<open>sendMessage\<close> returns at a guard: no request, no timer, and the page (button text,
  button style, form contents, trace) is exactly what it was.
\<close>

theorem sendMessage_empty_field:
  assumes "email p = Some e" "message p = Some m" "e = [] \<or> m = []"
  shows "sendMessage_start p = Inr (p, None) \<and> sendMessage out p = Inr [p]"
proof -
  have "sendMessage_start p = Inr (p, None)"
    using assms by (auto simp: sendMessage_start_def split: option.splits)
  then show ?thesis by (simp add: sendMessage_def)
qed

theorem sendMessage_empty_field_witness:
  "message unfilled = Some [] \<and> sendMessage_start unfilled = Inr (unfilled, None)
   \<and> sendMessage Rejected unfilled = Inr [unfilled]"
  using sendMessage_empty_field [of unfilled "''a@b.c''" "[]" Rejected]
  by (simp add: unfilled_def filled_def)

end
